theory Spec2Isabelle
  imports Complex_Main
begin

unbundle bit_operations_syntax

section \<open>Constants of tc.c\<close>

text \<open>Time constants, in microseconds.\<close>

definition STOP_TIME :: int where "STOP_TIME = 2000000"
definition DELTA_L :: int where "DELTA_L = 5000000"
definition DELTA_S :: int where "DELTA_S = 4000000"
definition DELTA_R :: int where "DELTA_R = 3000000"

text \<open>Direction indices.\<close>

definition DIR_N :: int where "DIR_N = 0"
definition DIR_S :: int where "DIR_S = 1"
definition DIR_E :: int where "DIR_E = 2"
definition DIR_W :: int where "DIR_W = 3"

text \<open>Quadrant indices; they are used as array indices and as shift amounts.\<close>

definition Q_NW :: nat where "Q_NW = 0"
definition Q_NE :: nat where "Q_NE = 1"
definition Q_SW :: nat where "Q_SW = 2"
definition Q_SE :: nat where "Q_SE = 3"
definition NUM_QUADS :: nat where "NUM_QUADS = 4"
definition NUM_CARS :: nat where "NUM_CARS = 8"

lemmas time_defs = STOP_TIME_def DELTA_L_def DELTA_S_def DELTA_R_def
lemmas dir_defs = DIR_N_def DIR_S_def DIR_E_def DIR_W_def
lemmas quad_defs = Q_NW_def Q_NE_def Q_SW_def Q_SE_def NUM_QUADS_def

section \<open>Data\<close>

text \<open>
  The C \<open>double\<close> fields hold times in seconds; only their order is ever used, so they
  are modelled as reals. The \<open>int\<close> flags keep their C reading: zero is false, anything
  else is true. The field \<open>done\<close> is named \<open>done_flag\<close> here.
\<close>

record directions =
  dir_original :: char
  dir_target :: char

record car_info =
  cid :: int
  arrival_time :: real
  dir :: directions
  stop_complete_time :: real
  at_front :: int
  waiting :: int
  crossing :: int
  done_flag :: int

text \<open>A quadrant lock: \<open>owner_dir\<close> is \<open>-1\<close> when free, otherwise a direction index.\<close>

record quadrant_t =
  owner_dir :: int
  count :: int

section \<open>Directions, turns and quadrant masks\<close>

text \<open>The four symbols of the direction alphabet.\<close>

definition valid_dir :: "char \<Rightarrow> bool" where
  "valid_dir d \<longleftrightarrow> d = CHR ''^'' \<or> d = CHR ''v'' \<or> d = CHR ''>'' \<or> d = CHR ''<''"

definition dir_to_index :: "char \<Rightarrow> int" where
  "dir_to_index d =
     (if d = CHR ''^'' then DIR_N
      else if d = CHR ''v'' then DIR_S
      else if d = CHR ''>'' then DIR_E
      else if d = CHR ''<'' then DIR_W
      else -1)"

text \<open>Turn type: 0 = straight, 1 = left, 2 = right.\<close>

definition get_turn_type :: "char \<Rightarrow> char \<Rightarrow> int" where
  "get_turn_type orig target =
     (if orig = target then 0
      else if (orig = CHR ''^'' \<and> target = CHR ''<'') \<or>
              (orig = CHR ''v'' \<and> target = CHR ''>'') \<or>
              (orig = CHR ''>'' \<and> target = CHR ''^'') \<or>
              (orig = CHR ''<'' \<and> target = CHR ''v'')
           then 1
      else 2)"

definition get_crossing_time :: "int \<Rightarrow> int" where
  "get_crossing_time turn =
     (if turn = 1 then DELTA_L else if turn = 0 then DELTA_S else DELTA_R)"

text \<open>
  The quadrant bitmask of a movement: bit \<open>q\<close> is set when the path passes through
  quadrant \<open>q\<close>. \<open>1 << q\<close> is \<open>push_bit q 1\<close>.
\<close>

definition get_quadrant_mask :: "char \<Rightarrow> char \<Rightarrow> int" where
  "get_quadrant_mask orig target =
     (let turn = get_turn_type orig target in
      if orig = CHR ''^'' then
        (if turn = 2 then push_bit Q_SW 1
         else if turn = 0 then push_bit Q_SW 1 OR push_bit Q_NW 1
         else push_bit Q_SW 1 OR push_bit Q_NW 1 OR push_bit Q_NE 1)
      else if orig = CHR ''v'' then
        (if turn = 2 then push_bit Q_NE 1
         else if turn = 0 then push_bit Q_NE 1 OR push_bit Q_SE 1
         else push_bit Q_NE 1 OR push_bit Q_SE 1 OR push_bit Q_SW 1)
      else if orig = CHR ''>'' then
        (if turn = 2 then push_bit Q_NW 1
         else if turn = 0 then push_bit Q_NW 1 OR push_bit Q_NE 1
         else push_bit Q_NW 1 OR push_bit Q_NE 1 OR push_bit Q_SE 1)
      else if orig = CHR ''<'' then
        (if turn = 2 then push_bit Q_SE 1
         else if turn = 0 then push_bit Q_SE 1 OR push_bit Q_SW 1
         else push_bit Q_SE 1 OR push_bit Q_SW 1 OR push_bit Q_NW 1)
      else 0)"

text \<open>
  The test \<open>mask & (1 << q)\<close> of the two loops of \<open>CrossIntersection\<close>, and the
  quadrants of a mask in the order in which the ascending loop meets them.
\<close>

definition in_mask :: "int \<Rightarrow> nat \<Rightarrow> bool" where
  "in_mask m q \<longleftrightarrow> m AND push_bit q 1 \<noteq> 0"

definition mask_quads :: "int \<Rightarrow> nat list" where
  "mask_quads m = filter (in_mask m) [0..<NUM_QUADS]"

text \<open>
  The set of quadrants that the path of a direction pair occupies: the quadrant indices
  whose bit is set in the mask.
\<close>

definition region_set :: "char \<Rightarrow> char \<Rightarrow> nat set" where
  "region_set orig target = {q \<in> {0..<NUM_QUADS}. bit (get_quadrant_mask orig target) q}"

section \<open>Quadrant locks\<close>

text \<open>
  \<open>acquire_quad\<close> and \<open>release_quad\<close> work on the global array \<open>quads\<close> under the
  quadrant's mutex, so each call is one atomic transition of the array. A call of
  \<open>acquire_quad\<close> leaves its wait loop only in a state where the loop test fails; in any
  other state the caller stays blocked, which is the outcome \<open>Blocks\<close>. \<open>Undefined\<close> is
  C's undefined behaviour: an index outside the array, or overflow of the \<open>int\<close> counter.
\<close>

datatype 'a outcome = Returns 'a | Blocks | Undefined

definition INT_MAX :: int where "INT_MAX = 2147483647"
definition INT_MIN :: int where "INT_MIN = - 2147483648"

definition acquire_quad :: "nat \<Rightarrow> int \<Rightarrow> quadrant_t list \<Rightarrow> quadrant_t list outcome" where
  "acquire_quad q d quads =
     (if length quads \<le> q then Undefined
      else if owner_dir (quads ! q) \<noteq> -1 \<and> owner_dir (quads ! q) \<noteq> d then Blocks
      else if count (quads ! q) = INT_MAX then Undefined
      else Returns (quads[q := (quads ! q)\<lparr>owner_dir := d, count := count (quads ! q) + 1\<rparr>]))"

definition release_quad :: "nat \<Rightarrow> quadrant_t list \<Rightarrow> quadrant_t list outcome" where
  "release_quad q quads =
     (if length quads \<le> q then Undefined
      else if count (quads ! q) = INT_MIN then Undefined
      else let c = count (quads ! q) - 1 in
        Returns (quads[q := (quads ! q)\<lparr>owner_dir := (if c = 0 then -1 else owner_dir (quads ! q)),
                                       count := c\<rparr>]))"

text \<open>The quadrant part of \<open>init_system\<close>: every quadrant free, with no holder.\<close>

definition init_system :: "quadrant_t list" where
  "init_system = map (\<lambda>q. \<lparr>owner_dir = -1, count = 0\<rparr>) [0..<NUM_QUADS]"

subsection \<open>Interleavings of acquire and release\<close>

text \<open>
  The system state pairs the array with a record, per quadrant, of the directions of
  the agents that have acquired the quadrant and not yet released it. This second
  component is not in the program; it names the current holders. An operation is an
  acquire by an agent of direction \<open>d\<close> or a release by a holder of direction \<open>d\<close>;
  \<open>step\<close> is \<open>None\<close> when the operation cannot take effect in the state.
\<close>

record sys =
  quads :: "quadrant_t list"
  holders :: "int list list"

datatype op = Acquire nat int | Release nat int

definition valid_index :: "int \<Rightarrow> bool" where
  "valid_index d \<longleftrightarrow> d = DIR_N \<or> d = DIR_S \<or> d = DIR_E \<or> d = DIR_W"

fun step :: "op \<Rightarrow> sys \<Rightarrow> sys option" where
  "step (Acquire q d) s =
     (if valid_index d then
        (case acquire_quad q d (quads s) of
           Returns qs \<Rightarrow> Some \<lparr>quads = qs, holders = (holders s)[q := d # holders s ! q]\<rparr>
         | Blocks \<Rightarrow> None
         | Undefined \<Rightarrow> None)
      else None)"
| "step (Release q d) s =
     (if q < length (holders s) \<and> d \<in> set (holders s ! q) then
        (case release_quad q (quads s) of
           Returns qs \<Rightarrow> Some \<lparr>quads = qs, holders = (holders s)[q := remove1 d (holders s ! q)]\<rparr>
         | Blocks \<Rightarrow> None
         | Undefined \<Rightarrow> None)
      else None)"

fun run :: "op list \<Rightarrow> sys \<Rightarrow> sys option" where
  "run [] s = Some s"
| "run (a # as) s = (case step a s of None \<Rightarrow> None | Some s' \<Rightarrow> run as s')"

definition init_sys :: sys where
  "init_sys = \<lparr>quads = init_system, holders = replicate NUM_QUADS []\<rparr>"

text \<open>The invariant of one quadrant lock together with its holders.\<close>

definition quad_inv :: "quadrant_t \<Rightarrow> int list \<Rightarrow> bool" where
  "quad_inv qd hs \<longleftrightarrow>
     (count qd > 0 \<longrightarrow> owner_dir qd \<noteq> -1) \<and>
     (count qd = 0 \<longrightarrow> owner_dir qd = -1) \<and>
     (\<forall>d \<in> set hs. d = owner_dir qd)"

text \<open>
  The invariant of the whole system that the transitions preserve: the counter of each
  quadrant is the number of its holders, a quadrant without holders is free, and every
  holder has the owner's direction, which is a valid direction index.
\<close>

definition sys_inv :: "sys \<Rightarrow> bool" where
  "sys_inv s \<longleftrightarrow>
     length (quads s) = NUM_QUADS \<and> length (holders s) = NUM_QUADS \<and>
     (\<forall>q < NUM_QUADS.
        count (quads s ! q) = int (length (holders s ! q)) \<and>
        (holders s ! q = [] \<longrightarrow> owner_dir (quads s ! q) = -1) \<and>
        (\<forall>d \<in> set (holders s ! q). d = owner_dir (quads s ! q) \<and> valid_index d))"

section \<open>The fairness check\<close>

text \<open>
  The loop of \<open>earlier_car_waiting\<close> over the table \<open>cars\<close>, entry by entry in index
  order, with the three \<open>continue\<close> tests and the early \<open>return 1\<close>.
\<close>

fun earlier_loop :: "car_info \<Rightarrow> real \<Rightarrow> int \<Rightarrow> car_info list \<Rightarrow> int" where
  "earlier_loop car my_stop my_dir [] = 0"
| "earlier_loop car my_stop my_dir (c # cs) =
     (if cid c = cid car then earlier_loop car my_stop my_dir cs
      else if done_flag c \<noteq> 0 then earlier_loop car my_stop my_dir cs
      else if dir_to_index (dir_original (dir c)) = my_dir then earlier_loop car my_stop my_dir cs
      else if stop_complete_time c > 0 \<and> stop_complete_time c < my_stop \<and>
              at_front c \<noteq> 0 \<and> waiting c \<noteq> 0 \<and> \<not> crossing c \<noteq> 0
           then 1
      else earlier_loop car my_stop my_dir cs)"

definition earlier_car_waiting :: "car_info list \<Rightarrow> car_info \<Rightarrow> int" where
  "earlier_car_waiting cars car =
     (let my_stop = stop_complete_time car;
          my_dir = dir_to_index (dir_original (dir car))
      in earlier_loop car my_stop my_dir cars)"

section \<open>The steps of a car thread\<close>

text \<open>
  A car thread is sequential code. Its run is recorded as the list of the operations it
  performs, in program order. The clock and the other threads decide three things, which
  are parameters: \<open>k\<close>, the number of \<open>usleep\<close> rounds before the arrival time; \<open>now\<close>,
  the clock reading stored as \<open>stop_complete_time\<close>; and \<open>n\<close>, the number of times the
  fairness check holds the car back before it lets it go. An operation that blocks for
  ever cuts the run short, so every run of the thread is a prefix of such a list.
\<close>

datatype event =
    Usleep int
  | Print_event int char char string
  | Spin int
  | Lock_state
  | Unlock_state
  | Broadcast_state
  | Cond_wait_state
  | Lock_dir int
  | Unlock_dir int
  | Set_stop_complete_time real
  | Set_at_front int
  | Set_waiting int
  | Set_crossing int
  | Set_done int
  | Earlier_car_waiting int
  | Acquire_quad nat int
  | Release_quad nat

text \<open>The \<open>while (1)\<close> loop of \<open>ArriveIntersection\<close>, held back \<open>n\<close> times.\<close>

fun wait_loop :: "nat \<Rightarrow> event list" where
  "wait_loop 0 = [Lock_state, Earlier_car_waiting 0, Unlock_state]"
| "wait_loop (Suc n) =
     [Lock_state, Earlier_car_waiting 1, Cond_wait_state, Unlock_state] @ wait_loop n"

definition ArriveIntersection :: "car_info \<Rightarrow> real \<Rightarrow> nat \<Rightarrow> event list" where
  "ArriveIntersection car now n =
     (let d = dir_to_index (dir_original (dir car)) in
      [Print_event (cid car) (dir_original (dir car)) (dir_target (dir car)) ''arriving'',
       Spin STOP_TIME,
       Lock_state, Set_stop_complete_time now, Unlock_state,
       Lock_dir d,
       Lock_state, Set_at_front 1, Set_waiting 1, Broadcast_state, Unlock_state]
      @ wait_loop n)"

text \<open>The ascending loop \<open>for (q = 0; q < NUM_QUADS; q++)\<close>, from \<open>q\<close> on.\<close>

function acquire_from :: "int \<Rightarrow> int \<Rightarrow> nat \<Rightarrow> event list" where
  "acquire_from m d q =
     (if q < NUM_QUADS
      then (if in_mask m q then [Acquire_quad q d] else []) @ acquire_from m d (Suc q)
      else [])"
  by pat_completeness auto
termination
  by (relation "measure (\<lambda>(m, d, q). NUM_QUADS - q)") auto

declare acquire_from.simps [simp del]

text \<open>
  The descending loop \<open>for (q = NUM_QUADS - 1; q >= 0; q--)\<close>; the argument is
  \<open>q + 1\<close>, so that \<open>0\<close> is the exit of the loop.
\<close>

fun release_from :: "int \<Rightarrow> nat \<Rightarrow> event list" where
  "release_from m 0 = []"
| "release_from m (Suc q) = (if in_mask m q then [Release_quad q] else []) @ release_from m q"

definition CrossIntersection :: "car_info \<Rightarrow> event list" where
  "CrossIntersection car =
     (let d = dir_to_index (dir_original (dir car));
          turn = get_turn_type (dir_original (dir car)) (dir_target (dir car));
          cross_time = get_crossing_time turn;
          m = get_quadrant_mask (dir_original (dir car)) (dir_target (dir car))
      in acquire_from m d 0
         @ [Lock_state, Set_waiting 0, Set_crossing 1, Broadcast_state, Unlock_state,
            Unlock_dir d,
            Print_event (cid car) (dir_original (dir car)) (dir_target (dir car)) ''crossing'',
            Spin cross_time,
            Lock_state, Set_crossing 0, Unlock_state]
         @ release_from m NUM_QUADS)"

definition ExitIntersection :: "car_info \<Rightarrow> event list" where
  "ExitIntersection car =
     [Print_event (cid car) (dir_original (dir car)) (dir_target (dir car)) ''exiting'',
      Lock_state, Set_done 1, Set_at_front 0, Broadcast_state, Unlock_state]"

definition car_thread :: "car_info \<Rightarrow> nat \<Rightarrow> real \<Rightarrow> nat \<Rightarrow> event list" where
  "car_thread car k now n =
     replicate k (Usleep 1000)
     @ ArriveIntersection car now n @ CrossIntersection car @ ExitIntersection car"

text \<open>
  The two gate operations cut a run into three segments: the operations before the gate
  is taken, those under the gate, and those after it is given back.
\<close>

definition before_gate :: "car_info \<Rightarrow> nat \<Rightarrow> real \<Rightarrow> event list" where
  "before_gate car k now =
     replicate k (Usleep 1000) @
     [Print_event (cid car) (dir_original (dir car)) (dir_target (dir car)) ''arriving'',
      Spin STOP_TIME, Lock_state, Set_stop_complete_time now, Unlock_state]"

definition under_gate :: "car_info \<Rightarrow> nat \<Rightarrow> event list" where
  "under_gate car n =
     [Lock_state, Set_at_front 1, Set_waiting 1, Broadcast_state, Unlock_state] @ wait_loop n @
     map (\<lambda>q. Acquire_quad q (dir_to_index (dir_original (dir car))))
       (mask_quads (get_quadrant_mask (dir_original (dir car)) (dir_target (dir car)))) @
     [Lock_state, Set_waiting 0, Set_crossing 1, Broadcast_state, Unlock_state]"

definition after_gate :: "car_info \<Rightarrow> event list" where
  "after_gate car =
     [Print_event (cid car) (dir_original (dir car)) (dir_target (dir car)) ''crossing'',
      Spin (get_crossing_time (get_turn_type (dir_original (dir car)) (dir_target (dir car)))),
      Lock_state, Set_crossing 0, Unlock_state] @
     map Release_quad
       (rev (mask_quads (get_quadrant_mask (dir_original (dir car)) (dir_target (dir car))))) @
     ExitIntersection car"

text \<open>
  Only the thread of a car writes the fields of that car, so the fields after a run are
  the result of the car's own writes.
\<close>

fun apply_event :: "event \<Rightarrow> car_info \<Rightarrow> car_info" where
  "apply_event (Set_stop_complete_time t) car = car\<lparr>stop_complete_time := t\<rparr>"
| "apply_event (Set_at_front v) car = car\<lparr>at_front := v\<rparr>"
| "apply_event (Set_waiting v) car = car\<lparr>waiting := v\<rparr>"
| "apply_event (Set_crossing v) car = car\<lparr>crossing := v\<rparr>"
| "apply_event (Set_done v) car = car\<lparr>done_flag := v\<rparr>"
| "apply_event e car = car"

definition after :: "event list \<Rightarrow> car_info \<Rightarrow> car_info" where
  "after es car = fold apply_event es car"

fun is_acquire :: "event \<Rightarrow> bool" where
  "is_acquire (Acquire_quad q d) = True"
| "is_acquire e = False"

fun is_release :: "event \<Rightarrow> bool" where
  "is_release (Release_quad q) = True"
| "is_release e = False"

fun is_gate :: "event \<Rightarrow> bool" where
  "is_gate (Lock_dir d) = True"
| "is_gate (Unlock_dir d) = True"
| "is_gate e = False"

section \<open>The scenario\<close>

text \<open>The table built by \<open>init_cars\<close>: eight literals, with no check of any field.\<close>

definition init_cars :: "car_info list" where
  "init_cars =
     [\<lparr>cid = 1, arrival_time = 1.1, dir = \<lparr>dir_original = CHR ''^'', dir_target = CHR ''^''\<rparr>,
       stop_complete_time = 0, at_front = 0, waiting = 0, crossing = 0, done_flag = 0\<rparr>,
      \<lparr>cid = 2, arrival_time = 2.2, dir = \<lparr>dir_original = CHR ''^'', dir_target = CHR ''^''\<rparr>,
       stop_complete_time = 0, at_front = 0, waiting = 0, crossing = 0, done_flag = 0\<rparr>,
      \<lparr>cid = 3, arrival_time = 3.3, dir = \<lparr>dir_original = CHR ''^'', dir_target = CHR ''<''\<rparr>,
       stop_complete_time = 0, at_front = 0, waiting = 0, crossing = 0, done_flag = 0\<rparr>,
      \<lparr>cid = 4, arrival_time = 4.4, dir = \<lparr>dir_original = CHR ''v'', dir_target = CHR ''v''\<rparr>,
       stop_complete_time = 0, at_front = 0, waiting = 0, crossing = 0, done_flag = 0\<rparr>,
      \<lparr>cid = 5, arrival_time = 5.5, dir = \<lparr>dir_original = CHR ''v'', dir_target = CHR ''>''\<rparr>,
       stop_complete_time = 0, at_front = 0, waiting = 0, crossing = 0, done_flag = 0\<rparr>,
      \<lparr>cid = 6, arrival_time = 6.6, dir = \<lparr>dir_original = CHR ''^'', dir_target = CHR ''^''\<rparr>,
       stop_complete_time = 0, at_front = 0, waiting = 0, crossing = 0, done_flag = 0\<rparr>,
      \<lparr>cid = 7, arrival_time = 7.7, dir = \<lparr>dir_original = CHR ''>'', dir_target = CHR ''^''\<rparr>,
       stop_complete_time = 0, at_front = 0, waiting = 0, crossing = 0, done_flag = 0\<rparr>,
      \<lparr>cid = 8, arrival_time = 8.8, dir = \<lparr>dir_original = CHR ''<'', dir_target = CHR ''^''\<rparr>,
       stop_complete_time = 0, at_front = 0, waiting = 0, crossing = 0, done_flag = 0\<rparr>]"

section \<open>Turn kinds and crossing times\<close>

text \<open>
  C5. \<open>get_turn_type\<close> returns 0 (straight) exactly when origin and target are the same
  symbol, 1 (left) exactly for the four pairs north to west, south to east, east to north
  and west to south, and 2 (right) exactly for the remaining pairs of distinct symbols.
  The result is a function of the pair. This holds for all symbols, so in particular for
  the valid ones.
\<close>

theorem get_turn_type_cases:
  "(get_turn_type orig target = 0 \<longleftrightarrow> orig = target) \<and>
   (get_turn_type orig target = 1 \<longleftrightarrow>
      (orig, target) \<in> {(CHR ''^'', CHR ''<''), (CHR ''v'', CHR ''>''),
                         (CHR ''>'', CHR ''^''), (CHR ''<'', CHR ''v'')}) \<and>
   (get_turn_type orig target = 2 \<longleftrightarrow>
      orig \<noteq> target \<and>
      (orig, target) \<notin> {(CHR ''^'', CHR ''<''), (CHR ''v'', CHR ''>''),
                         (CHR ''>'', CHR ''^''), (CHR ''<'', CHR ''v'')})"
  by (auto simp: get_turn_type_def)

text \<open>
  C9. The crossing time of a left turn is strictly larger than that of a straight
  crossing, which is strictly larger than that of a right turn; the values are
  5000000, 4000000 and 3000000 microseconds.
\<close>

theorem get_crossing_time_order:
  "get_crossing_time 1 > get_crossing_time 0 \<and> get_crossing_time 0 > get_crossing_time 2 \<and>
   get_crossing_time 1 = 5000000 \<and> get_crossing_time 0 = 4000000 \<and>
   get_crossing_time 2 = 3000000"
  by (simp add: get_crossing_time_def time_defs)

section \<open>The quadrants of a movement\<close>

lemma upt_4: "[0..<4] = [0, 1, 2, 3::nat]"
  by (simp add: upt_conv_Cons numeral_eq_Suc del: upt_Suc)

lemma in_mask_bit: "in_mask m q \<longleftrightarrow> bit m q"
  by (simp add: in_mask_def bit_iff_and_push_bit_not_eq_0)

lemma set_mask_quads: "set (mask_quads m) = {q \<in> {0..<NUM_QUADS}. bit m q}"
  by (auto simp: mask_quads_def in_mask_bit)

lemma region_set_mask_quads:
  "region_set orig target = set (mask_quads (get_quadrant_mask orig target))"
  by (simp add: region_set_def set_mask_quads)

lemma mask_quads_north:
  "mask_quads (get_quadrant_mask (CHR ''^'') target) =
     (if get_turn_type (CHR ''^'') target = 2 then [Q_SW]
      else if get_turn_type (CHR ''^'') target = 0 then [Q_NW, Q_SW]
      else [Q_NW, Q_NE, Q_SW])"
  by (simp add: get_quadrant_mask_def Let_def quad_defs mask_quads_def upt_4 in_mask_def)

lemma mask_quads_south:
  "mask_quads (get_quadrant_mask (CHR ''v'') target) =
     (if get_turn_type (CHR ''v'') target = 2 then [Q_NE]
      else if get_turn_type (CHR ''v'') target = 0 then [Q_NE, Q_SE]
      else [Q_NE, Q_SW, Q_SE])"
  by (simp add: get_quadrant_mask_def Let_def quad_defs mask_quads_def upt_4 in_mask_def)

lemma mask_quads_east:
  "mask_quads (get_quadrant_mask (CHR ''>'') target) =
     (if get_turn_type (CHR ''>'') target = 2 then [Q_NW]
      else if get_turn_type (CHR ''>'') target = 0 then [Q_NW, Q_NE]
      else [Q_NW, Q_NE, Q_SE])"
  by (simp add: get_quadrant_mask_def Let_def quad_defs mask_quads_def upt_4 in_mask_def)

lemma mask_quads_west:
  "mask_quads (get_quadrant_mask (CHR ''<'') target) =
     (if get_turn_type (CHR ''<'') target = 2 then [Q_SE]
      else if get_turn_type (CHR ''<'') target = 0 then [Q_SW, Q_SE]
      else [Q_NW, Q_SW, Q_SE])"
  by (simp add: get_quadrant_mask_def Let_def quad_defs mask_quads_def upt_4 in_mask_def)

lemmas mask_quads_table = mask_quads_north mask_quads_south mask_quads_east mask_quads_west

lemma valid_dir_cases:
  assumes "valid_dir d"
  obtains "d = CHR ''^''" | "d = CHR ''v''" | "d = CHR ''>''" | "d = CHR ''<''"
  using assms by (auto simp: valid_dir_def)

lemma straight_reachable:
  assumes "valid_dir orig"
  shows "\<exists>target. valid_dir target \<and> get_turn_type orig target = 0"
proof -
  from assms have "valid_dir orig \<and> get_turn_type orig orig = 0"
    by (simp add: get_turn_type_def)
  then show ?thesis by blast
qed

lemma left_reachable:
  assumes "valid_dir orig"
  shows "\<exists>target. valid_dir target \<and> get_turn_type orig target = 1"
  using assms
proof (cases rule: valid_dir_cases)
  case 1
  then have "valid_dir (CHR ''<'') \<and> get_turn_type orig (CHR ''<'') = 1"
    by (simp add: valid_dir_def get_turn_type_def)
  then show ?thesis by blast
next
  case 2
  then have "valid_dir (CHR ''>'') \<and> get_turn_type orig (CHR ''>'') = 1"
    by (simp add: valid_dir_def get_turn_type_def)
  then show ?thesis by blast
next
  case 3
  then have "valid_dir (CHR ''^'') \<and> get_turn_type orig (CHR ''^'') = 1"
    by (simp add: valid_dir_def get_turn_type_def)
  then show ?thesis by blast
next
  case 4
  then have "valid_dir (CHR ''v'') \<and> get_turn_type orig (CHR ''v'') = 1"
    by (simp add: valid_dir_def get_turn_type_def)
  then show ?thesis by blast
qed

lemma right_reachable:
  assumes "valid_dir orig"
  shows "\<exists>target. valid_dir target \<and> get_turn_type orig target = 2"
  using assms
proof (cases rule: valid_dir_cases)
  case 1
  then have "valid_dir (CHR ''>'') \<and> get_turn_type orig (CHR ''>'') = 2"
    by (simp add: valid_dir_def get_turn_type_def)
  then show ?thesis by blast
next
  case 2
  then have "valid_dir (CHR ''<'') \<and> get_turn_type orig (CHR ''<'') = 2"
    by (simp add: valid_dir_def get_turn_type_def)
  then show ?thesis by blast
next
  case 3
  then have "valid_dir (CHR ''v'') \<and> get_turn_type orig (CHR ''v'') = 2"
    by (simp add: valid_dir_def get_turn_type_def)
  then show ?thesis by blast
next
  case 4
  then have "valid_dir (CHR ''^'') \<and> get_turn_type orig (CHR ''^'') = 2"
    by (simp add: valid_dir_def get_turn_type_def)
  then show ?thesis by blast
qed

text \<open>
  C4. For every valid origin and every target, the quadrant set of
  \<open>get_quadrant_mask\<close> is not empty and has exactly 1 element when the turn is right,
  2 when it is straight and 3 when it is left; and from every valid origin each of the
  three turn kinds is reached by some valid target, so that all twelve combinations of
  origin and turn occur.
\<close>

theorem get_quadrant_mask_total:
  assumes "valid_dir orig"
  shows "region_set orig target \<noteq> {} \<and>
         card (region_set orig target) =
           (if get_turn_type orig target = 2 then 1
            else if get_turn_type orig target = 0 then 2 else 3) \<and>
         (\<exists>t0 t1 t2. valid_dir t0 \<and> valid_dir t1 \<and> valid_dir t2 \<and>
            get_turn_type orig t0 = 0 \<and> get_turn_type orig t1 = 1 \<and>
            get_turn_type orig t2 = 2)"
proof -
  from assms have sz: "region_set orig target \<noteq> {} \<and>
         card (region_set orig target) =
           (if get_turn_type orig target = 2 then 1
            else if get_turn_type orig target = 0 then 2 else 3)"
    by (cases rule: valid_dir_cases)
      (simp_all add: region_set_mask_quads mask_quads_table quad_defs)
  from straight_reachable [OF assms] left_reachable [OF assms] right_reachable [OF assms] sz
  show ?thesis by blast
qed

theorem get_quadrant_mask_total_witness:
  "valid_dir (CHR ''>'') \<and> region_set (CHR ''>'') (CHR ''^'') = {Q_NW, Q_NE, Q_SE} \<and>
   card (region_set (CHR ''>'') (CHR ''^'')) = 3 \<and> get_turn_type (CHR ''>'') (CHR ''^'') = 1"
proof -
  have v: "valid_dir (CHR ''>'')" by (simp add: valid_dir_def)
  have t: "get_turn_type (CHR ''>'') (CHR ''^'') = 1" by (simp add: get_turn_type_def)
  have r: "region_set (CHR ''>'') (CHR ''^'') = {Q_NW, Q_NE, Q_SE}"
    by (simp add: region_set_mask_quads mask_quads_east t)
  from get_quadrant_mask_total [OF v, of "CHR ''^''"] v t r show ?thesis by simp
qed

section \<open>The quadrant lock\<close>

text \<open>
  C3. A call \<open>acquire_quad(q, d)\<close> on a quadrant of the array gets past its wait loop
  exactly when the quadrant is free or owned by \<open>d\<close>. When it returns, the owner is
  \<open>d\<close>, the counter is one more than before, and no other quadrant has changed. In
  particular a caller whose direction is the owner's is never blocked; and when the
  quadrant is free or owned by \<open>d\<close> the call returns, unless the counter is at the
  top of its type.
\<close>

theorem acquire_quad_proceeds:
  assumes "q < length qs"
  shows "(acquire_quad q d qs \<noteq> Blocks \<longleftrightarrow>
            owner_dir (qs ! q) = -1 \<or> owner_dir (qs ! q) = d) \<and>
         (\<forall>qs'. acquire_quad q d qs = Returns qs' \<longrightarrow>
            (owner_dir (qs ! q) = -1 \<or> owner_dir (qs ! q) = d) \<and>
            owner_dir (qs' ! q) = d \<and>
            count (qs' ! q) = count (qs ! q) + 1 \<and>
            length qs' = length qs \<and>
            (\<forall>r. r \<noteq> q \<longrightarrow> qs' ! r = qs ! r)) \<and>
         (owner_dir (qs ! q) = d \<longrightarrow> acquire_quad q d qs \<noteq> Blocks) \<and>
         ((owner_dir (qs ! q) = -1 \<or> owner_dir (qs ! q) = d) \<and>
          count (qs ! q) < INT_MAX \<longrightarrow>
            (\<exists>qs'. acquire_quad q d qs = Returns qs'))"
  using assms by (auto simp: acquire_quad_def)

theorem acquire_quad_proceeds_witness:
  "(2::nat) < length init_system \<and>
   acquire_quad 2 DIR_N init_system =
     Returns (init_system[2 := \<lparr>owner_dir = DIR_N, count = 1\<rparr>]) \<and>
   acquire_quad 2 DIR_N (init_system[2 := \<lparr>owner_dir = DIR_N, count = 1\<rparr>]) =
     Returns (init_system[2 := \<lparr>owner_dir = DIR_N, count = 2\<rparr>]) \<and>
   acquire_quad 2 DIR_S (init_system[2 := \<lparr>owner_dir = DIR_N, count = 1\<rparr>]) = Blocks"
proof -
  have h: "(2::nat) < length init_system"
    by (simp add: init_system_def NUM_QUADS_def)
  have h': "(2::nat) < length (init_system[2 := \<lparr>owner_dir = DIR_N, count = 1\<rparr>])"
    by (simp add: init_system_def NUM_QUADS_def)
  have a: "acquire_quad 2 DIR_N init_system =
     Returns (init_system[2 := \<lparr>owner_dir = DIR_N, count = 1\<rparr>])"
    by code_simp
  have b: "acquire_quad 2 DIR_N (init_system[2 := \<lparr>owner_dir = DIR_N, count = 1\<rparr>]) =
     Returns (init_system[2 := \<lparr>owner_dir = DIR_N, count = 2\<rparr>])"
    by code_simp
  have c: "acquire_quad 2 DIR_S (init_system[2 := \<lparr>owner_dir = DIR_N, count = 1\<rparr>]) = Blocks"
    by code_simp
  from acquire_quad_proceeds [OF h, of DIR_N]
    acquire_quad_proceeds [OF h', of DIR_N] acquire_quad_proceeds [OF h', of DIR_S] h a b c
  show ?thesis by simp
qed

subsection \<open>The invariant over all interleavings\<close>

lemma sys_inv_init: "sys_inv init_sys"
  by (simp add: sys_inv_def init_sys_def init_system_def)

lemma valid_index_not_free: "valid_index d \<Longrightarrow> d \<noteq> -1"
  by (auto simp: valid_index_def dir_defs)

lemma step_acquire_inv:
  assumes "sys_inv s" "step (Acquire q d) s = Some s'"
  shows "sys_inv s'"
proof -
  from assms(2) have v: "valid_index d"
    by (simp split: if_splits)
  from assms(2) v obtain qs where a: "acquire_quad q d (quads s) = Returns qs"
    and s': "s' = \<lparr>quads = qs, holders = (holders s)[q := d # holders s ! q]\<rparr>"
    by (auto split: outcome.splits)
  from a have q: "q < length (quads s)"
    and free: "owner_dir (quads s ! q) = -1 \<or> owner_dir (quads s ! q) = d"
    and qs: "qs = (quads s)[q := (quads s ! q)\<lparr>owner_dir := d, count := count (quads s ! q) + 1\<rparr>]"
    by (auto simp: acquire_quad_def split: if_splits)
  show ?thesis
    unfolding sys_inv_def
  proof (intro conjI allI impI)
    show "length (quads s') = NUM_QUADS" using assms(1) by (simp add: s' qs sys_inv_def)
    show "length (holders s') = NUM_QUADS" using assms(1) by (simp add: s' sys_inv_def)
  next
    fix r assume r: "r < NUM_QUADS"
    show "count (quads s' ! r) = int (length (holders s' ! r))"
      using assms(1) r by (cases "r = q") (simp_all add: s' qs sys_inv_def)
    show "owner_dir (quads s' ! r) = -1" if "holders s' ! r = []"
      using assms(1) r that by (cases "r = q") (simp_all add: s' qs sys_inv_def)
    show "\<forall>e \<in> set (holders s' ! r). e = owner_dir (quads s' ! r) \<and> valid_index e"
    proof (cases "r = q")
      case False
      then show ?thesis using assms(1) r by (simp add: s' qs sys_inv_def)
    next
      case True
      have old: "\<forall>e \<in> set (holders s ! q). e = owner_dir (quads s ! q) \<and> valid_index e"
        using assms(1) r True by (simp add: sys_inv_def)
      have "\<forall>e \<in> set (holders s ! q). e = d"
      proof
        fix e assume e: "e \<in> set (holders s ! q)"
        with old have "e = owner_dir (quads s ! q)" "valid_index e" by auto
        with free show "e = d" using valid_index_not_free [of e] by auto
      qed
      with old v show ?thesis using assms(1) r True
        by (auto simp: s' qs sys_inv_def)
    qed
  qed
qed

lemma step_release_inv:
  assumes "sys_inv s" "step (Release q d) s = Some s'"
  shows "sys_inv s'"
proof -
  from assms(2) have qh: "q < length (holders s)" and d: "d \<in> set (holders s ! q)"
    by (simp_all split: if_splits)
  from assms(2) qh d obtain qs where a: "release_quad q (quads s) = Returns qs"
    and s': "s' = \<lparr>quads = qs, holders = (holders s)[q := remove1 d (holders s ! q)]\<rparr>"
    by (auto split: outcome.splits)
  from a have qs: "qs = (quads s)[q := (quads s ! q)\<lparr>owner_dir :=
        (if count (quads s ! q) - 1 = 0 then -1 else owner_dir (quads s ! q)),
        count := count (quads s ! q) - 1\<rparr>]"
    by (auto simp: release_quad_def Let_def split: if_splits)
  from assms(1) qh have qN: "q < NUM_QUADS" by (simp add: sys_inv_def)
  from d have len: "length (remove1 d (holders s ! q)) = length (holders s ! q) - 1"
    by (simp add: length_remove1)
  from d have pos: "length (holders s ! q) > 0"
    by (rule length_pos_if_in_set)
  from len pos have lenI:
    "int (length (remove1 d (holders s ! q))) = int (length (holders s ! q)) - 1"
    by linarith
  show ?thesis
    unfolding sys_inv_def
  proof (intro conjI allI impI)
    show "length (quads s') = NUM_QUADS" using assms(1) by (simp add: s' qs sys_inv_def)
    show "length (holders s') = NUM_QUADS" using assms(1) by (simp add: s' sys_inv_def)
  next
    fix r assume r: "r < NUM_QUADS"
    show "count (quads s' ! r) = int (length (holders s' ! r))"
    proof (cases "r = q")
      case False
      then show ?thesis using assms(1) r by (simp add: s' qs sys_inv_def)
    next
      case True
      have "count (quads s ! q) = int (length (holders s ! q))"
        using assms(1) qN by (simp add: sys_inv_def)
      with lenI True show ?thesis using assms(1) qN
        by (simp add: s' qs sys_inv_def)
    qed
    show "owner_dir (quads s' ! r) = -1" if e: "holders s' ! r = []"
    proof (cases "r = q")
      case False
      then show ?thesis using assms(1) r e by (simp add: s' qs sys_inv_def)
    next
      case True
      have c: "count (quads s ! q) = int (length (holders s ! q))"
        using assms(1) qN by (simp add: sys_inv_def)
      from e True have "remove1 d (holders s ! q) = []"
        using assms(1) qN by (simp add: s' sys_inv_def)
      with lenI have "int (length (holders s ! q)) = 1" by simp
      with c True show ?thesis using assms(1) qN
        by (simp add: s' qs sys_inv_def)
    qed
    show "\<forall>e \<in> set (holders s' ! r). e = owner_dir (quads s' ! r) \<and> valid_index e"
    proof (cases "r = q")
      case False
      then show ?thesis using assms(1) r by (simp add: s' qs sys_inv_def)
    next
      case True
      have c: "count (quads s ! q) = int (length (holders s ! q))"
        using assms(1) qN by (simp add: sys_inv_def)
      have old: "\<forall>e \<in> set (holders s ! q). e = owner_dir (quads s ! q) \<and> valid_index e"
        using assms(1) qN by (simp add: sys_inv_def)
      show ?thesis
      proof
        fix e assume "e \<in> set (holders s' ! r)"
        then have e: "e \<in> set (remove1 d (holders s ! q))"
          using assms(1) qN True by (simp add: s' sys_inv_def)
        then have e': "e \<in> set (holders s ! q)" using set_remove1_subset [of d "holders s ! q"] by blast
        from e have "int (length (remove1 d (holders s ! q))) \<noteq> 0" by auto
        with lenI c have "count (quads s ! q) - 1 \<noteq> 0" by simp
        with e' old True show "e = owner_dir (quads s' ! r) \<and> valid_index e"
          using assms(1) qN by (simp add: s' qs sys_inv_def)
      qed
    qed
  qed
qed

lemma step_inv: "sys_inv s \<Longrightarrow> step a s = Some s' \<Longrightarrow> sys_inv s'"
  by (cases a) (blast intro: step_acquire_inv step_release_inv)+

lemma run_inv: "sys_inv s \<Longrightarrow> run ops s = Some s' \<Longrightarrow> sys_inv s'"
proof (induction ops arbitrary: s)
  case Nil
  then show ?case by simp
next
  case (Cons a ops)
  from Cons.prems(2) obtain s1 where 1: "step a s = Some s1" and 2: "run ops s1 = Some s'"
    by (auto split: option.splits)
  from Cons.prems(1) 1 have "sys_inv s1" by (rule step_inv)
  then show ?case using 2 by (rule Cons.IH)
qed

lemma sys_inv_quad_inv:
  assumes "sys_inv s" "q < NUM_QUADS"
  shows "quad_inv (quads s ! q) (holders s ! q)"
proof -
  from assms have c: "count (quads s ! q) = int (length (holders s ! q))"
    and e: "holders s ! q = [] \<longrightarrow> owner_dir (quads s ! q) = -1"
    and h: "\<forall>d \<in> set (holders s ! q). d = owner_dir (quads s ! q) \<and> valid_index d"
    by (simp_all add: sys_inv_def)
  have "owner_dir (quads s ! q) \<noteq> -1" if "count (quads s ! q) > 0"
  proof -
    from that c obtain d where d: "d \<in> set (holders s ! q)"
      by (cases "holders s ! q") auto
    with h have "d = owner_dir (quads s ! q)" "valid_index d" by auto
    then show ?thesis using valid_index_not_free by auto
  qed
  moreover have "owner_dir (quads s ! q) = -1" if "count (quads s ! q) = 0"
    using that c e by simp
  ultimately show ?thesis using h by (simp add: quad_inv_def)
qed

text \<open>
  C2. In every state reached from the initial state by a sequence of acquire steps with
  a valid direction, each taking effect only when the quadrant is free or owned by that
  direction, and release steps by current holders, every quadrant satisfies: a positive
  counter implies an owner, a zero counter implies that the quadrant is free, and every
  current holder's direction is the owner direction. The counter is the number of
  holders, so it stays far from the bounds of \<open>int\<close> with the eight car threads.
\<close>

theorem quadrant_invariant:
  assumes "run ops init_sys = Some s" and "q < NUM_QUADS"
  shows "(count (quads s ! q) > 0 \<longrightarrow> owner_dir (quads s ! q) \<noteq> -1) \<and>
         (count (quads s ! q) = 0 \<longrightarrow> owner_dir (quads s ! q) = -1) \<and>
         (\<forall>d \<in> set (holders s ! q). d = owner_dir (quads s ! q)) \<and>
         count (quads s ! q) = int (length (holders s ! q))"
proof -
  from sys_inv_init assms(1) have i: "sys_inv s" by (rule run_inv)
  from sys_inv_quad_inv [OF i assms(2)] i assms(2) show ?thesis
    by (simp add: quad_inv_def sys_inv_def)
qed

theorem quadrant_invariant_witness:
  "run [Acquire 2 0, Acquire 0 0, Acquire 2 0, Release 2 0] init_sys =
     Some \<lparr>quads = [\<lparr>owner_dir = 0, count = 1\<rparr>, \<lparr>owner_dir = -1, count = 0\<rparr>,
                    \<lparr>owner_dir = 0, count = 1\<rparr>, \<lparr>owner_dir = -1, count = 0\<rparr>],
           holders = [[0], [], [0], []]\<rparr> \<and>
   (2::nat) < NUM_QUADS \<and> (1::nat) < NUM_QUADS \<and>
   run [Acquire 2 0, Acquire 2 1] init_sys = None"
proof -
  have r: "run [Acquire 2 0, Acquire 0 0, Acquire 2 0, Release 2 0] init_sys =
     Some \<lparr>quads = [\<lparr>owner_dir = 0, count = 1\<rparr>, \<lparr>owner_dir = -1, count = 0\<rparr>,
                    \<lparr>owner_dir = 0, count = 1\<rparr>, \<lparr>owner_dir = -1, count = 0\<rparr>],
           holders = [[0], [], [0], []]\<rparr>"
    by code_simp
  have b: "run [Acquire 2 0, Acquire 2 1] init_sys = None"
    by code_simp
  have q2: "(2::nat) < NUM_QUADS" and q1: "(1::nat) < NUM_QUADS"
    by (simp_all add: NUM_QUADS_def)
  from quadrant_invariant [OF r q2] quadrant_invariant [OF r q1] r b q2 q1
  show ?thesis by simp
qed

section \<open>The fairness check\<close>

lemma dir_to_index_eq_iff:
  assumes "valid_dir a"
  shows "dir_to_index b = dir_to_index a \<longleftrightarrow> b = a"
  using assms by (auto simp: valid_dir_def dir_to_index_def dir_defs split: if_splits)

lemma earlier_loop_range: "earlier_loop car my_stop my_dir cs = 0 \<or> earlier_loop car my_stop my_dir cs = 1"
  by (induction cs) simp_all

lemma earlier_loop_iff:
  "earlier_loop car my_stop my_dir cs = 1 \<longleftrightarrow>
     (\<exists>b \<in> set cs. cid b \<noteq> cid car \<and> done_flag b = 0 \<and>
        dir_to_index (dir_original (dir b)) \<noteq> my_dir \<and>
        0 < stop_complete_time b \<and> stop_complete_time b < my_stop \<and>
        at_front b \<noteq> 0 \<and> waiting b \<noteq> 0 \<and> crossing b = 0)"
proof (induction cs)
  case Nil
  show ?case by simp
next
  case (Cons c cs)
  show ?case
  proof (cases "cid c \<noteq> cid car \<and> done_flag c = 0 \<and>
        dir_to_index (dir_original (dir c)) \<noteq> my_dir \<and>
        0 < stop_complete_time c \<and> stop_complete_time c < my_stop \<and>
        at_front c \<noteq> 0 \<and> waiting c \<noteq> 0 \<and> crossing c = 0")
    case True
    then show ?thesis by auto
  next
    case False
    then have "earlier_loop car my_stop my_dir (c # cs) = earlier_loop car my_stop my_dir cs"
      by auto
    with False Cons.IH show ?thesis by auto
  qed
qed

text \<open>
  The check as the code writes it, on any table: the test for a recorded time is
  \<open>> 0\<close>.
\<close>

lemma earlier_car_waiting_positive:
  assumes "valid_dir (dir_original (dir a))"
  shows "(earlier_car_waiting cars a \<noteq> 0 \<longleftrightarrow>
           (\<exists>b \<in> set cars. cid b \<noteq> cid a \<and> done_flag b = 0 \<and>
              dir_original (dir b) \<noteq> dir_original (dir a) \<and>
              0 < stop_complete_time b \<and> stop_complete_time b < stop_complete_time a \<and>
              at_front b \<noteq> 0 \<and> waiting b \<noteq> 0 \<and> crossing b = 0)) \<and>
         (earlier_car_waiting cars a = 0 \<or> earlier_car_waiting cars a = 1)"
proof -
  let ?l = "earlier_loop a (stop_complete_time a) (dir_to_index (dir_original (dir a))) cars"
  have e: "earlier_car_waiting cars a = ?l"
    by (simp add: earlier_car_waiting_def)
  have r: "?l = 0 \<or> ?l = 1" by (rule earlier_loop_range)
  then have "?l \<noteq> 0 \<longleftrightarrow> ?l = 1" by auto
  then show ?thesis
    unfolding e using r
    by (simp add: earlier_loop_iff dir_to_index_eq_iff [OF assms])
qed

text \<open>
  C1. A \<open>stop_complete_time\<close> is elapsed simulation time: the program stores 0 when
  the table is set up and otherwise a reading of the clock taken after the stop pause,
  so no entry of the table is negative. On every such table, and for every car \<open>a\<close>
  with a valid origin symbol, \<open>earlier_car_waiting\<close> returns true (1, and otherwise
  0) if and only if the table holds another car \<open>b\<close>, told apart by its id as in
  the code, that is not done, whose origin symbol differs from that of \<open>a\<close>, whose
  \<open>stop_complete_time\<close> is nonzero and strictly less than that of \<open>a\<close>, and which is
  at the front, waiting and not crossing.
\<close>

theorem earlier_car_waiting_nonzero_iff:
  assumes "valid_dir (dir_original (dir a))"
    and "\<forall>b \<in> set cars. 0 \<le> stop_complete_time b"
  shows "(earlier_car_waiting cars a \<noteq> 0 \<longleftrightarrow>
           (\<exists>b \<in> set cars. cid b \<noteq> cid a \<and> done_flag b = 0 \<and>
              dir_original (dir b) \<noteq> dir_original (dir a) \<and>
              stop_complete_time b \<noteq> 0 \<and> stop_complete_time b < stop_complete_time a \<and>
              at_front b \<noteq> 0 \<and> waiting b \<noteq> 0 \<and> crossing b = 0)) \<and>
         (earlier_car_waiting cars a = 0 \<or> earlier_car_waiting cars a = 1)"
proof -
  have pos: "0 < stop_complete_time b \<longleftrightarrow> stop_complete_time b \<noteq> 0" if "b \<in> set cars" for b
    using assms(2) that by fastforce
  have "(\<exists>b \<in> set cars. cid b \<noteq> cid a \<and> done_flag b = 0 \<and>
              dir_original (dir b) \<noteq> dir_original (dir a) \<and>
              0 < stop_complete_time b \<and> stop_complete_time b < stop_complete_time a \<and>
              at_front b \<noteq> 0 \<and> waiting b \<noteq> 0 \<and> crossing b = 0) \<longleftrightarrow>
        (\<exists>b \<in> set cars. cid b \<noteq> cid a \<and> done_flag b = 0 \<and>
              dir_original (dir b) \<noteq> dir_original (dir a) \<and>
              stop_complete_time b \<noteq> 0 \<and> stop_complete_time b < stop_complete_time a \<and>
              at_front b \<noteq> 0 \<and> waiting b \<noteq> 0 \<and> crossing b = 0)"
    using pos by blast
  with earlier_car_waiting_positive [OF assms(1), of cars] show ?thesis
    by simp
qed

theorem earlier_car_waiting_nonzero_iff_witness:
  "valid_dir (dir_original (dir ((init_cars ! 0)\<lparr>stop_complete_time := 5\<rparr>))) \<and>
   earlier_car_waiting
     (init_cars[0 := (init_cars ! 0)\<lparr>stop_complete_time := 5\<rparr>,
                3 := (init_cars ! 3)\<lparr>stop_complete_time := 3, at_front := 1, waiting := 1\<rparr>])
     ((init_cars ! 0)\<lparr>stop_complete_time := 5\<rparr>) = 1 \<and>
   earlier_car_waiting
     (init_cars[0 := (init_cars ! 0)\<lparr>stop_complete_time := 5\<rparr>,
                1 := (init_cars ! 1)\<lparr>stop_complete_time := 3, at_front := 1, waiting := 1\<rparr>])
     ((init_cars ! 0)\<lparr>stop_complete_time := 5\<rparr>) = 0"
proof -
  have v: "valid_dir (dir_original (dir ((init_cars ! 0)\<lparr>stop_complete_time := 5\<rparr>)))"
    by (simp add: init_cars_def valid_dir_def)
  have n1: "\<forall>b \<in> set (init_cars[0 := (init_cars ! 0)\<lparr>stop_complete_time := 5\<rparr>,
                3 := (init_cars ! 3)\<lparr>stop_complete_time := 3, at_front := 1, waiting := 1\<rparr>]).
      0 \<le> stop_complete_time b"
    by (simp add: init_cars_def)
  have n0: "\<forall>b \<in> set (init_cars[0 := (init_cars ! 0)\<lparr>stop_complete_time := 5\<rparr>,
                1 := (init_cars ! 1)\<lparr>stop_complete_time := 3, at_front := 1, waiting := 1\<rparr>]).
      0 \<le> stop_complete_time b"
    by (simp add: init_cars_def)
  have e1: "earlier_car_waiting
     (init_cars[0 := (init_cars ! 0)\<lparr>stop_complete_time := 5\<rparr>,
                3 := (init_cars ! 3)\<lparr>stop_complete_time := 3, at_front := 1, waiting := 1\<rparr>])
     ((init_cars ! 0)\<lparr>stop_complete_time := 5\<rparr>) = 1"
    by (simp add: init_cars_def earlier_car_waiting_def dir_to_index_def dir_defs)
  have e0: "earlier_car_waiting
     (init_cars[0 := (init_cars ! 0)\<lparr>stop_complete_time := 5\<rparr>,
                1 := (init_cars ! 1)\<lparr>stop_complete_time := 3, at_front := 1, waiting := 1\<rparr>])
     ((init_cars ! 0)\<lparr>stop_complete_time := 5\<rparr>) = 0"
    by (simp add: init_cars_def earlier_car_waiting_def dir_to_index_def dir_defs)
  from v e1 e0 earlier_car_waiting_nonzero_iff [OF v n1] earlier_car_waiting_nonzero_iff [OF v n0]
  show ?thesis
    by simp
qed

section \<open>The steps of a crossing\<close>

lemma acquire_from_filter:
  "acquire_from m d q = map (\<lambda>q. Acquire_quad q d) (filter (in_mask m) [q..<NUM_QUADS])"
proof (induction m d q rule: acquire_from.induct)
  case (1 m d q)
  show ?case
  proof (cases "q < NUM_QUADS")
    case True
    then have "[q..<NUM_QUADS] = q # [Suc q..<NUM_QUADS]" by (rule upt_conv_Cons)
    with True "1.IH" show ?thesis by (simp add: acquire_from.simps [of m d q])
  next
    case False
    then show ?thesis by (simp add: acquire_from.simps [of m d q])
  qed
qed

lemma acquire_from_mask_quads:
  "acquire_from m d 0 = map (\<lambda>q. Acquire_quad q d) (mask_quads m)"
  by (simp add: acquire_from_filter mask_quads_def)

lemma release_from_filter:
  "release_from m n = map Release_quad (rev (filter (in_mask m) [0..<n]))"
  by (induction n) simp_all

lemma release_from_mask_quads:
  "release_from m NUM_QUADS = map Release_quad (rev (mask_quads m))"
  by (simp add: release_from_filter mask_quads_def)

lemma sorted_mask_quads: "sorted_wrt (<) (mask_quads m)"
  unfolding mask_quads_def by (rule sorted_wrt_filter) simp

lemma filter_acquire_map [simp]:
  "filter is_acquire (map (\<lambda>q. Acquire_quad q d) qs) = map (\<lambda>q. Acquire_quad q d) qs"
  "filter is_release (map (\<lambda>q. Acquire_quad q d) qs) = []"
  "filter is_gate (map (\<lambda>q. Acquire_quad q d) qs) = []"
  by (induction qs) simp_all

lemma filter_release_map [simp]:
  "filter is_release (map Release_quad qs) = map Release_quad qs"
  "filter is_acquire (map Release_quad qs) = []"
  "filter is_gate (map Release_quad qs) = []"
  by (induction qs) simp_all

lemma filter_both_acquire:
  "filter (\<lambda>e. is_acquire e \<or> is_release e) (map (\<lambda>q. Acquire_quad q d) qs) = map (\<lambda>q. Acquire_quad q d) qs"
  by (induction qs) simp_all

lemma filter_both_release:
  "filter (\<lambda>e. is_acquire e \<or> is_release e) (map Release_quad qs) = map Release_quad qs"
  by (induction qs) simp_all

text \<open>
  C7. Of the operations of \<open>CrossIntersection\<close>, the acquires and releases are, in
  program order: one acquire, with the car's direction, for each quadrant of the mask in
  ascending index order, and then one release for each of the same quadrants in the
  reverse, strictly descending, order. The quadrants of the mask are exactly the region
  set of the direction pair. This holds for every car, so for every valid pair.
\<close>

theorem cross_acquire_release_order:
  "filter (\<lambda>e. is_acquire e \<or> is_release e) (CrossIntersection car) =
     map (\<lambda>q. Acquire_quad q (dir_to_index (dir_original (dir car))))
         (mask_quads (get_quadrant_mask (dir_original (dir car)) (dir_target (dir car))))
     @ map Release_quad
         (rev (mask_quads (get_quadrant_mask (dir_original (dir car)) (dir_target (dir car))))) \<and>
   set (mask_quads (get_quadrant_mask (dir_original (dir car)) (dir_target (dir car)))) =
     region_set (dir_original (dir car)) (dir_target (dir car)) \<and>
   sorted_wrt (<) (mask_quads (get_quadrant_mask (dir_original (dir car)) (dir_target (dir car)))) \<and>
   sorted_wrt (>)
     (rev (mask_quads (get_quadrant_mask (dir_original (dir car)) (dir_target (dir car)))))"
  by (simp add: CrossIntersection_def Let_def acquire_from_mask_quads release_from_mask_quads
      filter_both_acquire filter_both_release region_set_mask_quads sorted_mask_quads
      sorted_wrt_rev)

section \<open>The direction gate\<close>

lemma split_at_first:
  assumes "pre @ e # rest = A @ x # R" and "P e" and "\<forall>y \<in> set A. \<not> P y"
  shows "(pre = A \<and> e = x \<and> rest = R) \<or> (\<exists>mid. pre = A @ x # mid \<and> R = mid @ e # rest)"
proof -
  from assms(1) obtain us where
    "(pre = A @ us \<and> us @ e # rest = x # R) \<or> (pre @ us = A \<and> e # rest = us @ x # R)"
    by (auto simp: append_eq_append_conv2)
  then show ?thesis
  proof
    assume a: "pre = A @ us \<and> us @ e # rest = x # R"
    show ?thesis
    proof (cases us)
      case Nil
      with a show ?thesis by simp
    next
      case (Cons u us')
      with a show ?thesis by simp
    qed
  next
    assume b: "pre @ us = A \<and> e # rest = us @ x # R"
    show ?thesis
    proof (cases us)
      case Nil
      with b show ?thesis by simp
    next
      case (Cons u us')
      with b have "e \<in> set A" by auto
      with assms(2,3) show ?thesis by blast
    qed
  qed
qed

lemma wait_loop_no_gate: "\<forall>y \<in> set (wait_loop n). \<not> is_gate y"
  by (induction n) simp_all

lemma wait_loop_no_acquire: "filter is_acquire (wait_loop n) = []"
  by (induction n) simp_all

lemma fold_wait_loop: "fold apply_event (wait_loop n) c = c"
  by (induction n) simp_all

lemma fold_usleep: "fold apply_event (replicate k (Usleep u)) c = c"
  by (induction k) simp_all

lemma fold_acquires: "fold apply_event (map (\<lambda>q. Acquire_quad q d) qs) c = c"
  by (induction qs) simp_all

lemma no_gate_acquires: "\<forall>y \<in> set (map (\<lambda>q. Acquire_quad q d) qs). \<not> is_gate y"
  by (induction qs) simp_all

lemma no_gate_releases: "\<forall>y \<in> set (map Release_quad qs). \<not> is_gate y"
  by (induction qs) simp_all

lemma car_thread_parts:
  "car_thread car k now n =
     before_gate car k now @ Lock_dir (dir_to_index (dir_original (dir car))) #
     under_gate car n @ Unlock_dir (dir_to_index (dir_original (dir car))) # after_gate car"
  by (simp add: car_thread_def ArriveIntersection_def CrossIntersection_def Let_def
      before_gate_def under_gate_def after_gate_def acquire_from_mask_quads
      release_from_mask_quads)

lemma before_gate_no_gate: "\<forall>y \<in> set (before_gate car k now). \<not> is_gate y"
  by (auto simp: before_gate_def)

lemma under_gate_no_gate: "\<forall>y \<in> set (under_gate car n). \<not> is_gate y"
  using wait_loop_no_gate [of n] by (auto simp: under_gate_def)

lemma after_gate_no_gate: "\<forall>y \<in> set (after_gate car). \<not> is_gate y"
  by (auto simp: after_gate_def ExitIntersection_def)

lemma gate_positions:
  assumes "car_thread car k now n = pre @ e # rest" and "is_gate e"
  shows "(pre = before_gate car k now \<and> e = Lock_dir (dir_to_index (dir_original (dir car)))) \<or>
         (pre = before_gate car k now @ Lock_dir (dir_to_index (dir_original (dir car))) #
                under_gate car n \<and>
          e = Unlock_dir (dir_to_index (dir_original (dir car))))"
proof -
  let ?d = "dir_to_index (dir_original (dir car))"
  from assms(1) have eq: "pre @ e # rest =
      before_gate car k now @ Lock_dir ?d # (under_gate car n @ Unlock_dir ?d # after_gate car)"
    by (simp add: car_thread_parts)
  from split_at_first [OF eq assms(2) before_gate_no_gate]
  show ?thesis
  proof
    assume "pre = before_gate car k now \<and> e = Lock_dir ?d \<and>
      rest = under_gate car n @ Unlock_dir ?d # after_gate car"
    then show ?thesis by simp
  next
    assume "\<exists>mid. pre = before_gate car k now @ Lock_dir ?d # mid \<and>
      under_gate car n @ Unlock_dir ?d # after_gate car = mid @ e # rest"
    then obtain mid where p: "pre = before_gate car k now @ Lock_dir ?d # mid"
      and m: "mid @ e # rest = under_gate car n @ Unlock_dir ?d # after_gate car"
      by auto
    from split_at_first [OF m assms(2) under_gate_no_gate]
    show ?thesis
    proof
      assume "mid = under_gate car n \<and> e = Unlock_dir ?d \<and> rest = after_gate car"
      with p show ?thesis by simp
    next
      assume "\<exists>mid'. mid = under_gate car n @ Unlock_dir ?d # mid' \<and>
        after_gate car = mid' @ e # rest"
      then have "e \<in> set (after_gate car)" by auto
      with assms(2) after_gate_no_gate show ?thesis by blast
    qed
  qed
qed

lemma after_before_gate:
  "stop_complete_time (after (before_gate car k now) car) = now"
  by (simp add: after_def before_gate_def fold_usleep)

lemma after_under_gate:
  "waiting (after (before_gate car k now @ Lock_dir d # under_gate car n) car) = 0 \<and>
   crossing (after (before_gate car k now @ Lock_dir d # under_gate car n) car) = 1"
  by (simp add: after_def before_gate_def under_gate_def fold_usleep fold_wait_loop fold_acquires)

lemma acquires_under_gate:
  "filter is_acquire (before_gate car k now @ Lock_dir d # under_gate car n) =
     map (\<lambda>q. Acquire_quad q (dir_to_index (dir_original (dir car))))
       (mask_quads (get_quadrant_mask (dir_original (dir car)) (dir_target (dir car))))"
  by (simp add: before_gate_def under_gate_def wait_loop_no_acquire)

text \<open>
  C6. Take any operation \<open>e\<close> of a car thread's run and the operations \<open>pre\<close>
  before it. If \<open>e\<close> takes the direction gate, then the gate is the one of the car's
  direction, the stop pause is in \<open>pre\<close>, \<open>stop_complete_time\<close> has been written, and
  \<open>pre\<close> has no gate operation. If \<open>e\<close> gives the gate back, then the only gate
  operation in \<open>pre\<close> is the taking of that gate, so the gate has not been given back
  earlier; the acquires in \<open>pre\<close> are those of all quadrants of the car's mask; and
  after \<open>pre\<close> the car's \<open>waiting\<close> is 0 and its \<open>crossing\<close> is 1.
\<close>

theorem gate_order:
  assumes "car_thread car k now n = pre @ e # rest"
  shows "(\<forall>d. e = Lock_dir d \<longrightarrow>
            d = dir_to_index (dir_original (dir car)) \<and>
            Spin STOP_TIME \<in> set pre \<and> Set_stop_complete_time now \<in> set pre \<and>
            stop_complete_time (after pre car) = now \<and>
            filter is_gate pre = []) \<and>
         (\<forall>d. e = Unlock_dir d \<longrightarrow>
            d = dir_to_index (dir_original (dir car)) \<and>
            filter is_gate pre = [Lock_dir (dir_to_index (dir_original (dir car)))] \<and>
            filter is_acquire pre =
              map (\<lambda>q. Acquire_quad q (dir_to_index (dir_original (dir car))))
                (mask_quads (get_quadrant_mask (dir_original (dir car)) (dir_target (dir car)))) \<and>
            (\<forall>q \<in> region_set (dir_original (dir car)) (dir_target (dir car)).
               Acquire_quad q (dir_to_index (dir_original (dir car))) \<in> set pre) \<and>
            waiting (after pre car) = 0 \<and> crossing (after pre car) = 1)"
proof (intro conjI allI impI)
  fix d assume e: "e = Lock_dir d"
  then have "is_gate e" by simp
  from gate_positions [OF assms this] e
  have p: "pre = before_gate car k now" and d: "d = dir_to_index (dir_original (dir car))"
    by auto
  show "d = dir_to_index (dir_original (dir car))" by (rule d)
  show "Spin STOP_TIME \<in> set pre" by (simp add: p before_gate_def)
  show "Set_stop_complete_time now \<in> set pre" by (simp add: p before_gate_def)
  show "stop_complete_time (after pre car) = now" by (simp add: p after_before_gate)
  show "filter is_gate pre = []"
    using before_gate_no_gate [of car k now] by (simp add: p filter_empty_conv)
next
  fix d assume e: "e = Unlock_dir d"
  then have "is_gate e" by simp
  from gate_positions [OF assms this] e
  have p: "pre = before_gate car k now @ Lock_dir (dir_to_index (dir_original (dir car))) #
                under_gate car n"
    and d: "d = dir_to_index (dir_original (dir car))"
    by auto
  show "d = dir_to_index (dir_original (dir car))" by (rule d)
  show "filter is_gate pre = [Lock_dir (dir_to_index (dir_original (dir car)))]"
    using before_gate_no_gate [of car k now] under_gate_no_gate [of car n]
    by (simp add: p filter_empty_conv)
  show "filter is_acquire pre =
      map (\<lambda>q. Acquire_quad q (dir_to_index (dir_original (dir car))))
        (mask_quads (get_quadrant_mask (dir_original (dir car)) (dir_target (dir car))))"
    by (simp only: p acquires_under_gate)
  then have f: "set (map (\<lambda>q. Acquire_quad q (dir_to_index (dir_original (dir car))))
        (mask_quads (get_quadrant_mask (dir_original (dir car)) (dir_target (dir car)))))
      \<subseteq> set pre"
    by (metis filter_is_subset)
  show "\<forall>q \<in> region_set (dir_original (dir car)) (dir_target (dir car)).
      Acquire_quad q (dir_to_index (dir_original (dir car))) \<in> set pre"
  proof
    fix q assume "q \<in> region_set (dir_original (dir car)) (dir_target (dir car))"
    then have "q \<in> set (mask_quads
        (get_quadrant_mask (dir_original (dir car)) (dir_target (dir car))))"
      by (simp add: region_set_mask_quads)
    then have "Acquire_quad q (dir_to_index (dir_original (dir car))) \<in>
        set (map (\<lambda>q. Acquire_quad q (dir_to_index (dir_original (dir car))))
          (mask_quads (get_quadrant_mask (dir_original (dir car)) (dir_target (dir car)))))"
      by simp
    with f show "Acquire_quad q (dir_to_index (dir_original (dir car))) \<in> set pre"
      by blast
  qed
  show "waiting (after pre car) = 0" by (simp only: p after_under_gate)
  show "crossing (after pre car) = 1" by (simp only: p after_under_gate)
qed

theorem gate_order_witness:
  "car_thread (init_cars ! 2) 0 5 0 =
     [Print_event 3 (CHR ''^'') (CHR ''<'') ''arriving'', Spin 2000000,
      Lock_state, Set_stop_complete_time 5, Unlock_state]
     @ Lock_dir 0 #
     [Lock_state, Set_at_front 1, Set_waiting 1, Broadcast_state, Unlock_state,
      Lock_state, Earlier_car_waiting 0, Unlock_state,
      Acquire_quad 0 0, Acquire_quad 1 0, Acquire_quad 2 0,
      Lock_state, Set_waiting 0, Set_crossing 1, Broadcast_state, Unlock_state]
     @ Unlock_dir 0 #
     [Print_event 3 (CHR ''^'') (CHR ''<'') ''crossing'', Spin 5000000,
      Lock_state, Set_crossing 0, Unlock_state,
      Release_quad 2, Release_quad 1, Release_quad 0,
      Print_event 3 (CHR ''^'') (CHR ''<'') ''exiting'',
      Lock_state, Set_done 1, Set_at_front 0, Broadcast_state, Unlock_state] \<and>
   stop_complete_time
     (after [Print_event 3 (CHR ''^'') (CHR ''<'') ''arriving'', Spin 2000000,
             Lock_state, Set_stop_complete_time 5, Unlock_state] (init_cars ! 2)) = 5 \<and>
   waiting
     (after ([Print_event 3 (CHR ''^'') (CHR ''<'') ''arriving'', Spin 2000000,
              Lock_state, Set_stop_complete_time 5, Unlock_state]
             @ Lock_dir 0 #
             [Lock_state, Set_at_front 1, Set_waiting 1, Broadcast_state, Unlock_state,
              Lock_state, Earlier_car_waiting 0, Unlock_state,
              Acquire_quad 0 0, Acquire_quad 1 0, Acquire_quad 2 0,
              Lock_state, Set_waiting 0, Set_crossing 1, Broadcast_state, Unlock_state])
        (init_cars ! 2)) = 0 \<and>
   crossing
     (after ([Print_event 3 (CHR ''^'') (CHR ''<'') ''arriving'', Spin 2000000,
              Lock_state, Set_stop_complete_time 5, Unlock_state]
             @ Lock_dir 0 #
             [Lock_state, Set_at_front 1, Set_waiting 1, Broadcast_state, Unlock_state,
              Lock_state, Earlier_car_waiting 0, Unlock_state,
              Acquire_quad 0 0, Acquire_quad 1 0, Acquire_quad 2 0,
              Lock_state, Set_waiting 0, Set_crossing 1, Broadcast_state, Unlock_state])
        (init_cars ! 2)) = 1"
proof -
  have c: "init_cars ! 2 =
      \<lparr>cid = 3, arrival_time = 3.3, dir = \<lparr>dir_original = CHR ''^'', dir_target = CHR ''<''\<rparr>,
       stop_complete_time = 0, at_front = 0, waiting = 0, crossing = 0, done_flag = 0\<rparr>"
    by (simp add: init_cars_def)
  have t: "get_turn_type (CHR ''^'') (CHR ''<'') = 1"
    by (simp add: get_turn_type_def)
  have eq1: "car_thread (init_cars ! 2) 0 5 0 =
     [Print_event 3 (CHR ''^'') (CHR ''<'') ''arriving'', Spin 2000000,
      Lock_state, Set_stop_complete_time 5, Unlock_state]
     @ Lock_dir 0 #
     ([Lock_state, Set_at_front 1, Set_waiting 1, Broadcast_state, Unlock_state,
      Lock_state, Earlier_car_waiting 0, Unlock_state,
      Acquire_quad 0 0, Acquire_quad 1 0, Acquire_quad 2 0,
      Lock_state, Set_waiting 0, Set_crossing 1, Broadcast_state, Unlock_state]
     @ Unlock_dir 0 #
     [Print_event 3 (CHR ''^'') (CHR ''<'') ''crossing'', Spin 5000000,
      Lock_state, Set_crossing 0, Unlock_state,
      Release_quad 2, Release_quad 1, Release_quad 0,
      Print_event 3 (CHR ''^'') (CHR ''<'') ''exiting'',
      Lock_state, Set_done 1, Set_at_front 0, Broadcast_state, Unlock_state])"
    by (simp add: c car_thread_def ArriveIntersection_def CrossIntersection_def
        ExitIntersection_def Let_def acquire_from_mask_quads release_from_mask_quads
        mask_quads_north t Q_NW_def Q_NE_def Q_SW_def dir_to_index_def dir_defs get_crossing_time_def time_defs)
  have eq2: "car_thread (init_cars ! 2) 0 5 0 =
     ([Print_event 3 (CHR ''^'') (CHR ''<'') ''arriving'', Spin 2000000,
      Lock_state, Set_stop_complete_time 5, Unlock_state]
     @ Lock_dir 0 #
     [Lock_state, Set_at_front 1, Set_waiting 1, Broadcast_state, Unlock_state,
      Lock_state, Earlier_car_waiting 0, Unlock_state,
      Acquire_quad 0 0, Acquire_quad 1 0, Acquire_quad 2 0,
      Lock_state, Set_waiting 0, Set_crossing 1, Broadcast_state, Unlock_state])
     @ Unlock_dir 0 #
     [Print_event 3 (CHR ''^'') (CHR ''<'') ''crossing'', Spin 5000000,
      Lock_state, Set_crossing 0, Unlock_state,
      Release_quad 2, Release_quad 1, Release_quad 0,
      Print_event 3 (CHR ''^'') (CHR ''<'') ''exiting'',
      Lock_state, Set_done 1, Set_at_front 0, Broadcast_state, Unlock_state]"
    by (simp only: eq1 append_assoc append_Cons)
  from gate_order [OF eq1] gate_order [OF eq2] eq1 show ?thesis
    by (simp add: time_defs)
qed

section \<open>Unrecognized direction symbols\<close>

lemma mask_quads_0: "mask_quads 0 = []"
  by (simp add: mask_quads_def in_mask_def)

lemma dir_to_index_invalid: "\<not> valid_dir d \<Longrightarrow> dir_to_index d = -1"
  by (simp add: valid_dir_def dir_to_index_def)

lemma get_quadrant_mask_invalid: "\<not> valid_dir d \<Longrightarrow> get_quadrant_mask d target = 0"
  by (simp add: valid_dir_def get_quadrant_mask_def Let_def)

lemma filter_acquire_release_wait_loop:
  "filter (\<lambda>e. is_acquire e \<or> is_release e) (wait_loop n) = []"
  by (induction n) simp_all

lemma filter_gate_wait_loop: "filter is_gate (wait_loop n) = []"
  by (induction n) simp_all

text \<open>
  C10. For every character \<open>d\<close> outside the four symbols, \<open>dir_to_index\<close> returns
  -1 and \<open>get_quadrant_mask\<close> with origin \<open>d\<close> returns 0, the empty quadrant set;
  both are plain return values. A car with origin \<open>d\<close> runs the whole protocol, to
  the write of \<open>done\<close>, with -1 as the index of its direction gate and with no
  acquire and no release of a quadrant. The index -1 lies outside the array of the four
  gates; what locking at that place does to memory is not part of this model.
\<close>

theorem unrecognized_origin_silent:
  assumes "\<not> valid_dir d" and "dir_original (dir car) = d"
  shows "dir_to_index d = -1 \<and> get_quadrant_mask d target = 0 \<and> region_set d target = {} \<and>
         filter (\<lambda>e. is_acquire e \<or> is_release e) (car_thread car k now n) = [] \<and>
         filter is_gate (car_thread car k now n) = [Lock_dir (-1), Unlock_dir (-1)] \<and>
         Set_done 1 \<in> set (car_thread car k now n)"
proof -
  from assms(1) have i: "dir_to_index d = -1" by (rule dir_to_index_invalid)
  from assms(1) have m: "get_quadrant_mask d target = 0" for target
    by (rule get_quadrant_mask_invalid)
  have r: "region_set d target = {}"
    by (simp add: region_set_mask_quads m mask_quads_0)
  have a: "filter (\<lambda>e. is_acquire e \<or> is_release e) (car_thread car k now n) = []"
    by (simp add: car_thread_def ArriveIntersection_def CrossIntersection_def
        ExitIntersection_def Let_def acquire_from_mask_quads release_from_mask_quads
        assms(2) m mask_quads_0 filter_acquire_release_wait_loop)
  have g: "filter is_gate (car_thread car k now n) = [Lock_dir (-1), Unlock_dir (-1)]"
    by (simp add: car_thread_def ArriveIntersection_def CrossIntersection_def
        ExitIntersection_def Let_def acquire_from_mask_quads release_from_mask_quads
        assms(2) m i mask_quads_0 filter_gate_wait_loop)
  have s: "Set_done 1 \<in> set (car_thread car k now n)"
    by (simp add: car_thread_def ExitIntersection_def)
  from i m r a g s show ?thesis by simp
qed

theorem unrecognized_origin_silent_witness:
  "\<not> valid_dir (CHR ''?'') \<and> dir_to_index (CHR ''?'') = -1 \<and>
   get_quadrant_mask (CHR ''?'') (CHR ''>'') = 0 \<and>
   filter is_gate
     (car_thread \<lparr>cid = 5, arrival_time = 5.5,
                  dir = \<lparr>dir_original = CHR ''?'', dir_target = CHR ''>''\<rparr>,
                  stop_complete_time = 0, at_front = 0, waiting = 0, crossing = 0,
                  done_flag = 0\<rparr> 0 7.5 0) = [Lock_dir (-1), Unlock_dir (-1)]"
proof -
  have v: "\<not> valid_dir (CHR ''?'')" by (simp add: valid_dir_def)
  have d: "dir_original (dir \<lparr>cid = 5, arrival_time = 5.5,
                  dir = \<lparr>dir_original = CHR ''?'', dir_target = CHR ''>''\<rparr>,
                  stop_complete_time = 0, at_front = 0, waiting = 0, crossing = 0,
                  done_flag = 0\<rparr>) = CHR ''?''" by simp
  from unrecognized_origin_silent [OF v d, of "CHR ''>''" 0 "7.5" 0] v show ?thesis
    by simp
qed

text \<open>
  C8, as the code has it. \<open>init_cars\<close> fills the table with eight fixed entries and
  checks nothing; every origin and target symbol in the table is one of the four
  recognized symbols, so the direction index of every car is a valid one and its region
  set is not empty.
\<close>

theorem init_cars_symbols_recognized:
  "length init_cars = NUM_CARS \<and>
   (\<forall>c \<in> set init_cars.
      valid_dir (dir_original (dir c)) \<and> valid_dir (dir_target (dir c)) \<and>
      valid_index (dir_to_index (dir_original (dir c))) \<and>
      region_set (dir_original (dir c)) (dir_target (dir c)) \<noteq> {})"
  by (simp add: init_cars_def NUM_CARS_def valid_dir_def valid_index_def dir_to_index_def
      dir_defs region_set_mask_quads mask_quads_table get_turn_type_def)

theorem init_cars_symbols_recognized_witness:
  "init_cars ! 6 \<in> set init_cars \<and>
   dir_original (dir (init_cars ! 6)) = CHR ''>'' \<and>
   valid_dir (dir_original (dir (init_cars ! 6))) \<and>
   valid_dir (dir_target (dir (init_cars ! 6))) \<and>
   dir_to_index (dir_original (dir (init_cars ! 6))) = DIR_E"
proof -
  have m: "init_cars ! 6 \<in> set init_cars" by (simp add: init_cars_def)
  have o: "dir_original (dir (init_cars ! 6)) = CHR ''>''" by (simp add: init_cars_def)
  have i: "dir_to_index (CHR ''>'') = DIR_E" by (simp add: dir_to_index_def)
  from init_cars_symbols_recognized [THEN conjunct2, THEN bspec, OF m] m o i
  show ?thesis by simp
qed

text \<open>
  C8, as stated, has an unrecognized symbol rejected when the car is set up. Nothing in
  the code rejects it: the entry of car 8 with its origin replaced by \<open>x\<close> is a car
  as any other, and its thread runs the protocol from ``arriving'' to ``exiting'',
  with -1 as the index of its gate.
\<close>

theorem unrecognized_symbol_runs_counterexample:
  "\<not> valid_dir (CHR ''x'') \<and>
   car_thread \<lparr>cid = 8, arrival_time = 8.8,
               dir = \<lparr>dir_original = CHR ''x'', dir_target = CHR ''^''\<rparr>,
               stop_complete_time = 0, at_front = 0, waiting = 0, crossing = 0,
               done_flag = 0\<rparr> 0 10.8 0 =
     [Print_event 8 (CHR ''x'') (CHR ''^'') ''arriving'', Spin 2000000,
      Lock_state, Set_stop_complete_time 10.8, Unlock_state,
      Lock_dir (-1),
      Lock_state, Set_at_front 1, Set_waiting 1, Broadcast_state, Unlock_state,
      Lock_state, Earlier_car_waiting 0, Unlock_state,
      Lock_state, Set_waiting 0, Set_crossing 1, Broadcast_state, Unlock_state,
      Unlock_dir (-1),
      Print_event 8 (CHR ''x'') (CHR ''^'') ''crossing'', Spin 3000000,
      Lock_state, Set_crossing 0, Unlock_state,
      Print_event 8 (CHR ''x'') (CHR ''^'') ''exiting'',
      Lock_state, Set_done 1, Set_at_front 0, Broadcast_state, Unlock_state]"
  by (simp add: valid_dir_def car_thread_def ArriveIntersection_def CrossIntersection_def
      ExitIntersection_def Let_def acquire_from_mask_quads release_from_mask_quads
      get_quadrant_mask_def mask_quads_0 get_turn_type_def dir_to_index_def
      get_crossing_time_def time_defs)

end
